theory Spec2Isabelle
  imports Complex_Main
begin

section \<open>The song handler of the OSC bridge (abletonosc/song.py)\<close>

text \<open>
  A shallow embedding of three parts of \<^verbatim>\<open>SongHandler\<close>: the beat listener
  (\<^verbatim>\<open>start_beat_listener\<close>, \<^verbatim>\<open>stop_beat_listener\<close>,
  \<^verbatim>\<open>current_song_time_changed\<close>), the bulk query \<^verbatim>\<open>song_get_track_data\<close> and
  \<^verbatim>\<open>song_jump_to_cue_point\<close>.

  Song times are Python floats. The modelled code only compares them and truncates them
  with \<^verbatim>\<open>int()\<close>; both operations are exact on finite floats, so times are modelled as
  \<^typ>\<open>real\<close> (NaN and the infinities are outside the model).
\<close>

subsection \<open>Python values, exceptions and log records\<close>

datatype error = ValueError | IndexError | AttributeError | RuntimeError

text \<open>An OSC argument, as a handler receives it in \<^verbatim>\<open>params\<close>.\<close>

datatype osc_arg = OInt int | OFloat real | OStr string

text \<open>
  A value read from the host's object graph with \<^verbatim>\<open>getattr\<close>. \<open>VTrack r\<close> is a
  reference to the \<^verbatim>\<open>Live.Track.Track\<close> object of identity \<open>r\<close>; \<open>VObject r\<close> is a
  reference to a host object of any other class.
\<close>

datatype pyval = VNone | VBool bool | VInt int | VFloat real | VStr string
  | VTrack nat | VObject nat

text \<open>The records written to \<^verbatim>\<open>self.logger\<close> by the modelled code, one constructor per call site.\<close>

datatype log_entry =
    Info_getting_track_data "osc_arg list" int int
  | Error_unknown_object string
  | Info_removing_beat_listener
  | Info_adding_beat_listener

text \<open>\<^verbatim>\<open>int(x)\<close> on a float truncates towards zero.\<close>

definition int_of_float :: "real \<Rightarrow> int" where
  "int_of_float x = (if 0 \<le> x then \<lfloor>x\<rfloor> else \<lceil>x\<rceil>)"

text \<open>Python indexing \<^verbatim>\<open>xs[i]\<close>: a negative index counts from the end.\<close>

definition py_index :: "'a list \<Rightarrow> int \<Rightarrow> nat option" where
  "py_index xs i =
     (let n = int (length xs); j = (if i < 0 then n + i else i)
      in if 0 \<le> j \<and> j < n then Some (nat j) else None)"

definition py_nth :: "'a list \<Rightarrow> int \<Rightarrow> error + 'a" where
  "py_nth xs i = (case py_index xs i of None \<Rightarrow> Inl IndexError | Some j \<Rightarrow> Inr (xs ! j))"

subsection \<open>The beat listener\<close>

text \<open>
  The state the beat listener reads and writes. \<open>listeners\<close> is the host's side: how often
  \<^verbatim>\<open>self.current_song_time_changed\<close> is registered as a listener of the song's
  \<^verbatim>\<open>current_song_time\<close>. \<open>sent\<close> holds the beats passed to
  \<^verbatim>\<open>self.osc_server.send("/live/song/get/beat", ...)\<close>, oldest first.
\<close>

record handler =
  last_song_time :: real
  current_song_time :: real
  listeners :: nat
  sent :: "int list"
  logged :: "log_entry list"

text \<open>
  The host is not part of the repository. Its listener registry is modelled as the host's API
  behaves: removing a listener that is not registered raises, adding one registers it once
  more (the model lets registrations stack, so that the handler alone has to prevent
  duplicates).
\<close>

definition remove_current_song_time_listener :: "handler \<Rightarrow> error + handler" where
  "remove_current_song_time_listener s =
     (if listeners s = 0 then Inl RuntimeError else Inr (s\<lparr>listeners := listeners s - 1\<rparr>))"

definition add_current_song_time_listener :: "handler \<Rightarrow> error + handler" where
  "add_current_song_time_listener s = Inr (s\<lparr>listeners := Suc (listeners s)\<rparr>)"

definition info :: "log_entry \<Rightarrow> handler \<Rightarrow> handler" where
  "info m s = s\<lparr>logged := logged s @ [m]\<rparr>"

text \<open>The statement \<^verbatim>\<open>self.last_song_time = -1.0\<close> of \<^verbatim>\<open>init_api\<close>.\<close>

definition init_api :: "handler \<Rightarrow> handler" where
  "init_api s = s\<lparr>last_song_time := - 1\<rparr>"

text \<open>\<^verbatim>\<open>try: remove; log  except: pass\<close>: whatever is raised inside is swallowed.\<close>

definition stop_beat_listener :: "handler \<Rightarrow> error + handler" where
  "stop_beat_listener s =
     (case remove_current_song_time_listener s of
        Inl e \<Rightarrow> Inr s
      | Inr s' \<Rightarrow> Inr (info Info_removing_beat_listener s'))"

definition start_beat_listener :: "handler \<Rightarrow> error + handler" where
  "start_beat_listener s =
     (case stop_beat_listener s of
        Inl e \<Rightarrow> Inl e
      | Inr s' \<Rightarrow> add_current_song_time_listener (info Info_adding_beat_listener s'))"

definition current_song_time_changed :: "handler \<Rightarrow> handler" where
  "current_song_time_changed s =
     (let s' = (if current_song_time s < last_song_time s
                   \<or> int_of_float (current_song_time s) > int_of_float (last_song_time s)
                then s\<lparr>sent := sent s @ [int_of_float (current_song_time s)]\<rparr>
                else s)
      in s'\<lparr>last_song_time := current_song_time s\<rparr>)"

text \<open>
  A notification of the host: the song time becomes \<open>t\<close> and every registered listener is
  called once.
\<close>

definition notify :: "real \<Rightarrow> handler \<Rightarrow> handler" where
  "notify t s = (current_song_time_changed ^^ listeners s) (s\<lparr>current_song_time := t\<rparr>)"

fun notify_all :: "real list \<Rightarrow> handler \<Rightarrow> handler" where
  "notify_all [] s = s"
| "notify_all (t # ts) s = notify_all ts (notify t s)"

text \<open>How many beat events one notification sends.\<close>

definition emitted :: "real \<Rightarrow> handler \<Rightarrow> nat" where
  "emitted t s = length (sent (notify t s)) - length (sent s)"

text \<open>The two addresses \<^verbatim>\<open>/live/song/start_listen/beat\<close> and \<^verbatim>\<open>/live/song/stop_listen/beat\<close>.\<close>

datatype request = Start_listen_beat | Stop_listen_beat

fun dispatch :: "request \<Rightarrow> handler \<Rightarrow> error + handler" where
  "dispatch Start_listen_beat s = start_beat_listener s"
| "dispatch Stop_listen_beat s = stop_beat_listener s"

fun dispatch_all :: "request list \<Rightarrow> handler \<Rightarrow> error + handler" where
  "dispatch_all [] s = Inr s"
| "dispatch_all (r # rs) s =
     (case dispatch r s of Inl e \<Rightarrow> Inl e | Inr s' \<Rightarrow> dispatch_all rs s')"

text \<open>
  A handler as it is after construction: \<^verbatim>\<open>init_api\<close> has run, nothing is registered
  with the host, nothing has been sent or logged. \<open>t\<close> is the song time of the host.
\<close>

definition new_handler :: "real \<Rightarrow> handler" where
  "new_handler t =
     init_api \<lparr>last_song_time = 0, current_song_time = t, listeners = 0, sent = [], logged = []\<rparr>"

text \<open>The handler right after \<^verbatim>\<open>start_listen beat\<close> on a new handler whose host is at time 0.\<close>

definition started_handler :: handler where
  "started_handler =
     \<lparr>last_song_time = - 1, current_song_time = 0, listeners = 1, sent = [],
      logged = [Info_adding_beat_listener]\<rparr>"

subsection \<open>The host's object graph\<close>

text \<open>
  The attributes of a host object, by name; \<^verbatim>\<open>getattr\<close> raises for a name the object
  does not have.
\<close>

type_synonym attrs = "(string \<times> pyval) list"

definition getattr :: "attrs \<Rightarrow> string \<Rightarrow> error + pyval" where
  "getattr obj property_name =
     (case map_of obj property_name of None \<Rightarrow> Inl AttributeError | Some v \<Rightarrow> Inr v)"

type_synonym device = attrs

type_synonym clip = attrs

record clip_slot =
  clip :: "clip option"
  clip_slot_attrs :: attrs

text \<open>\<open>ident\<close> is the identity of the track object: two references are equal when it agrees.\<close>

record track =
  ident :: nat
  track_attrs :: attrs
  clip_slots :: "clip_slot list"
  devices :: "device list"

record cue_point =
  name :: string
  time :: real

record song =
  tracks :: "track list"
  cue_points :: "cue_point list"

subsection \<open>The bulk query \<^verbatim>\<open>song_get_track_data\<close>\<close>

text \<open>\<^verbatim>\<open>s.split(".")\<close>: the pieces of \<open>s\<close> between its dots, never an empty list.\<close>

fun split_dot :: "string \<Rightarrow> string list" where
  "split_dot [] = [[]]"
| "split_dot (c # cs) =
     (if c = CHR ''.'' then [] # split_dot cs
      else (c # hd (split_dot cs)) # tl (split_dot cs))"

text \<open>The unpacking \<^verbatim>\<open>obj, property_name = ...\<close> of a list: it takes exactly two items.\<close>

definition unpack2 :: "'a list \<Rightarrow> error + ('a \<times> 'a)" where
  "unpack2 xs = (case xs of [a, b] \<Rightarrow> Inr (a, b) | _ \<Rightarrow> Inl ValueError)"

text \<open>
  \<^verbatim>\<open>int(x)\<close> on an OSC argument. Python's parser of integer literals in strings is a
  built-in outside the repository and is the parameter \<open>int_of_str\<close> (\<open>None\<close> where it
  raises).
\<close>

definition py_int :: "(string \<Rightarrow> int option) \<Rightarrow> osc_arg \<Rightarrow> error + int" where
  "py_int int_of_str x =
     (case x of
        OInt i \<Rightarrow> Inr i
      | OFloat f \<Rightarrow> Inr (int_of_float f)
      | OStr s \<Rightarrow> (case int_of_str s of None \<Rightarrow> Inl ValueError | Some i \<Rightarrow> Inr i))"

text \<open>\<^verbatim>\<open>range(lo, hi)\<close>.\<close>

definition range :: "int \<Rightarrow> int \<Rightarrow> int list" where
  "range lo hi = [lo..hi - 1]"

text \<open>\<^verbatim>\<open>list(self.song.tracks).index(value)\<close> for a reference to the track of identity \<open>r\<close>.\<close>

fun list_index :: "nat \<Rightarrow> track list \<Rightarrow> error + nat" where
  "list_index r [] = Inl ValueError"
| "list_index r (t # ts) =
     (if ident t = r then Inr 0
      else case list_index r ts of Inl e \<Rightarrow> Inl e | Inr i \<Rightarrow> Inr (Suc i))"

text \<open>The loop \<^verbatim>\<open>for x in xs: rv.append(f(x))\<close>, left by the first exception.\<close>

fun append_each :: "('a \<Rightarrow> error + pyval) \<Rightarrow> 'a list \<Rightarrow> pyval list \<Rightarrow> error + pyval list" where
  "append_each f [] rv = Inr rv"
| "append_each f (x # xs) rv =
     (case f x of Inl e \<Rightarrow> Inl e | Inr v \<Rightarrow> append_each f xs (rv @ [v]))"

text \<open>What the \<^verbatim>\<open>clip\<close> branch appends for one clip slot.\<close>

definition clip_value :: "string \<Rightarrow> clip_slot \<Rightarrow> error + pyval" where
  "clip_value property_name cs =
     (case clip cs of Some c \<Rightarrow> getattr c property_name | None \<Rightarrow> Inr VNone)"

text \<open>What the \<^verbatim>\<open>track\<close> branch appends.\<close>

definition track_value :: "song \<Rightarrow> track \<Rightarrow> string \<Rightarrow> error + pyval" where
  "track_value sg tr property_name =
     (if property_name = ''num_devices'' then Inr (VInt (int (length (devices tr))))
      else case getattr (track_attrs tr) property_name of
             Inl e \<Rightarrow> Inl e
           | Inr (VTrack r) \<Rightarrow>
               (case list_index r (tracks sg) of Inl e \<Rightarrow> Inl e | Inr i \<Rightarrow> Inr (VInt (int i)))
           | Inr v \<Rightarrow> Inr v)"

text \<open>
  The body of \<^verbatim>\<open>for prop in properties\<close> for one track: the log and \<open>rv\<close> go in, the
  log and either the exception or the new \<open>rv\<close> come out. A token that is not a string has no
  \<^verbatim>\<open>split\<close>; a string that does not split in two cannot be unpacked.
\<close>

definition track_data_prop ::
  "song \<Rightarrow> track \<Rightarrow> osc_arg \<Rightarrow> log_entry list \<Rightarrow> pyval list
     \<Rightarrow> log_entry list \<times> (error + pyval list)" where
  "track_data_prop sg tr prop lg rv =
     (case prop of
        OStr s \<Rightarrow>
          (case unpack2 (split_dot s) of
             Inl e \<Rightarrow> (lg, Inl e)
           | Inr (obj, property_name) \<Rightarrow>
               if obj = ''track'' then
                 (lg, case track_value sg tr property_name of
                        Inl e \<Rightarrow> Inl e | Inr v \<Rightarrow> Inr (rv @ [v]))
               else if obj = ''clip'' then
                 (lg, append_each (clip_value property_name) (clip_slots tr) rv)
               else if obj = ''clip_slot'' then
                 (lg, append_each (\<lambda>cs. getattr (clip_slot_attrs cs) property_name)
                        (clip_slots tr) rv)
               else if obj = ''device'' then
                 (lg, append_each (\<lambda>d. getattr d property_name) (devices tr) rv)
               else (lg @ [Error_unknown_object obj], Inr rv))
      | _ \<Rightarrow> (lg, Inl AttributeError))"

fun props_loop ::
  "song \<Rightarrow> track \<Rightarrow> osc_arg list \<Rightarrow> log_entry list \<Rightarrow> pyval list
     \<Rightarrow> log_entry list \<times> (error + pyval list)" where
  "props_loop sg tr [] lg rv = (lg, Inr rv)"
| "props_loop sg tr (prop # properties) lg rv =
     (case track_data_prop sg tr prop lg rv of
        (lg', Inl e) \<Rightarrow> (lg', Inl e)
      | (lg', Inr rv') \<Rightarrow> props_loop sg tr properties lg' rv')"

fun tracks_loop ::
  "song \<Rightarrow> osc_arg list \<Rightarrow> int list \<Rightarrow> log_entry list \<Rightarrow> pyval list
     \<Rightarrow> log_entry list \<times> (error + pyval list)" where
  "tracks_loop sg properties [] lg rv = (lg, Inr rv)"
| "tracks_loop sg properties (track_index # rest) lg rv =
     (case py_nth (tracks sg) track_index of
        Inl e \<Rightarrow> (lg, Inl e)
      | Inr tr \<Rightarrow>
          (case props_loop sg tr properties lg rv of
             (lg', Inl e) \<Rightarrow> (lg', Inl e)
           | (lg', Inr rv') \<Rightarrow> tracks_loop sg properties rest lg' rv'))"

text \<open>
  The handler of \<^verbatim>\<open>/live/song/get/track_data\<close>. It returns what it logged together with
  either the exception that left it or the values of the returned tuple.
\<close>

definition song_get_track_data ::
  "(string \<Rightarrow> int option) \<Rightarrow> song \<Rightarrow> osc_arg list \<Rightarrow> log_entry list \<times> (error + pyval list)" where
  "song_get_track_data int_of_str sg params =
     (case params of
        a # b # properties \<Rightarrow>
          (case py_int int_of_str a of
             Inl e \<Rightarrow> ([], Inl e)
           | Inr track_index_min \<Rightarrow>
               (case py_int int_of_str b of
                  Inl e \<Rightarrow> ([], Inl e)
                | Inr track_index_max \<Rightarrow>
                    tracks_loop sg properties
                      (range track_index_min
                         (if track_index_max = - 1 then int (length (tracks sg))
                          else track_index_max))
                      [Info_getting_track_data properties track_index_min track_index_max]
                      []))
      | _ \<Rightarrow> ([], Inl ValueError))"

text \<open>
  The values one token contributes for one track, and which tokens name an entity the handler
  does not know.
\<close>

definition token_values :: "song \<Rightarrow> track \<Rightarrow> osc_arg \<Rightarrow> error + pyval list" where
  "token_values sg tr prop = snd (track_data_prop sg tr prop [] [])"


definition malformed :: "string \<Rightarrow> bool" where
  "malformed s = (length (split_dot s) \<noteq> 2)"

text \<open>
  The response as the specification describes it: an upper bound of \<open>-1\<close> stands for the
  track count; for each track index of \<open>[lo, hi)\<close> in ascending order, and for each token in
  request order, the token's values, all in one flat sequence. \<open>concat_results\<close> is the first
  exception in that order if there is one.
\<close>

fun concat_results :: "(error + 'a list) list \<Rightarrow> error + 'a list" where
  "concat_results [] = Inr []"
| "concat_results (r # rs) =
     (case r of
        Inl e \<Rightarrow> Inl e
      | Inr vs \<Rightarrow> (case concat_results rs of Inl e \<Rightarrow> Inl e | Inr ws \<Rightarrow> Inr (vs @ ws)))"

definition track_values :: "song \<Rightarrow> osc_arg list \<Rightarrow> int \<Rightarrow> error + pyval list" where
  "track_values sg properties i =
     (case py_nth (tracks sg) i of
        Inl e \<Rightarrow> Inl e
      | Inr tr \<Rightarrow> concat_results (map (token_values sg tr) properties))"

definition track_major :: "song \<Rightarrow> int \<Rightarrow> int \<Rightarrow> osc_arg list \<Rightarrow> error + pyval list" where
  "track_major sg lo hi properties =
     concat_results
       (map (track_values sg properties)
          [lo..(if hi = - 1 then int (length (tracks sg)) else hi) - 1])"

subsection \<open>Jumping to a cue point\<close>

text \<open>
  \<^verbatim>\<open>cue_point.jump()\<close> acts on the host only. The model records on which cue points it
  is called: the result lists their positions in \<^verbatim>\<open>song.cue_points\<close>, in call order.
\<close>

fun jump_by_name :: "string \<Rightarrow> (nat \<times> cue_point) list \<Rightarrow> nat list \<Rightarrow> nat list" where
  "jump_by_name cue_point_index [] jumped = jumped"
| "jump_by_name cue_point_index ((i, cue_point) # rest) jumped =
     jump_by_name cue_point_index rest
       (if name cue_point = cue_point_index then jumped @ [i] else jumped)"

definition song_jump_to_cue_point :: "song \<Rightarrow> osc_arg list \<Rightarrow> error + nat list" where
  "song_jump_to_cue_point sg params =
     (case params of
        [] \<Rightarrow> Inl IndexError
      | cue_point_index # _ \<Rightarrow>
          (case cue_point_index of
             OStr s \<Rightarrow> Inr (jump_by_name s (enumerate 0 (cue_points sg)) [])
           | OInt i \<Rightarrow>
               (case py_index (cue_points sg) i of
                  None \<Rightarrow> Inl IndexError
                | Some j \<Rightarrow> Inr [j])
           | OFloat f \<Rightarrow> Inr []))"

subsection \<open>A small session\<close>

text \<open>
  Two tracks with two clip slots each: the clips \<open>A\<close> and \<open>B\<close> sit in slot 0 of track 0 and
  in slot 1 of track 1. Track 1 is grouped under track 0 and carries one device. Two of the
  three cue points share a name.
\<close>

definition example_song :: song where
  "example_song =
     \<lparr>tracks =
        [\<lparr>ident = 0, track_attrs = [(''name'', VStr ''T0''), (''group_track'', VNone)],
          clip_slots =
            [\<lparr>clip = Some [(''name'', VStr ''A'')], clip_slot_attrs = [(''has_clip'', VBool True)]\<rparr>,
             \<lparr>clip = None, clip_slot_attrs = [(''has_clip'', VBool False)]\<rparr>],
          devices = []\<rparr>,
         \<lparr>ident = 1, track_attrs = [(''name'', VStr ''T1''), (''group_track'', VTrack 0)],
          clip_slots =
            [\<lparr>clip = None, clip_slot_attrs = [(''has_clip'', VBool False)]\<rparr>,
             \<lparr>clip = Some [(''name'', VStr ''B'')], clip_slot_attrs = [(''has_clip'', VBool True)]\<rparr>],
          devices = [[(''name'', VStr ''Reverb'')]]\<rparr>],
      cue_points =
        [\<lparr>name = ''intro'', time = 0\<rparr>, \<lparr>name = ''verse'', time = 16\<rparr>,
         \<lparr>name = ''intro'', time = 32\<rparr>]\<rparr>"

text \<open>A parser of integer literals that accepts no string; the examples pass numbers.\<close>

definition no_str_int :: "string \<Rightarrow> int option" where
  "no_str_int s = None"

section \<open>Auxiliary facts\<close>

lemma int_of_float_mono:
  assumes le: "x \<le> y"
  shows "int_of_float x \<le> int_of_float y"
proof (cases "0 \<le> x")
  case True
  with le show ?thesis by (simp add: int_of_float_def floor_mono)
next
  case x: False
  show ?thesis
  proof (cases "0 \<le> y")
    case True
    have "\<lceil>x\<rceil> \<le> 0" using x by (simp add: ceiling_le_iff)
    moreover have "0 \<le> \<lfloor>y\<rfloor>" using True by simp
    ultimately have "\<lceil>x\<rceil> \<le> \<lfloor>y\<rfloor>" by linarith
    then show ?thesis using x True by (simp add: int_of_float_def)
  next
    case False
    with le show ?thesis using x by (simp add: int_of_float_def ceiling_mono)
  qed
qed

lemma int_of_float_less: "int_of_float x < int_of_float y \<Longrightarrow> x < y"
  using int_of_float_mono [of y x] by (cases "x < y") auto

lemma sent_changed:
  "sent (current_song_time_changed s) =
     sent s @ (if int_of_float (current_song_time s) \<noteq> int_of_float (last_song_time s)
                  \<or> current_song_time s < last_song_time s
               then [int_of_float (current_song_time s)] else [])"
  using int_of_float_less [of "current_song_time s" "last_song_time s"]
  by (cases "int_of_float (current_song_time s) < int_of_float (last_song_time s)")
     (auto simp: current_song_time_changed_def Let_def)

lemma notify_one: "listeners s = 1 \<Longrightarrow> notify t s = current_song_time_changed (s\<lparr>current_song_time := t\<rparr>)"
  by (simp add: notify_def)

lemma notify_zero: "listeners s = 0 \<Longrightarrow> notify t s = s\<lparr>current_song_time := t\<rparr>"
  by (simp add: notify_def)


lemma stop_beat_listener_eq:
  "stop_beat_listener s =
     Inr (if listeners s = 0 then s
          else s\<lparr>listeners := listeners s - 1, logged := logged s @ [Info_removing_beat_listener]\<rparr>)"
  by (simp add: stop_beat_listener_def remove_current_song_time_listener_def info_def)

lemma start_beat_listener_eq:
  "start_beat_listener s =
     Inr (if listeners s = 0
          then s\<lparr>listeners := 1, logged := logged s @ [Info_adding_beat_listener]\<rparr>
          else s\<lparr>listeners := listeners s,
                 logged := logged s @ [Info_removing_beat_listener, Info_adding_beat_listener]\<rparr>)"
  by (simp add: start_beat_listener_def stop_beat_listener_eq add_current_song_time_listener_def
      info_def)

lemma emitted_le_1: "listeners s \<le> 1 \<Longrightarrow> emitted t s \<le> 1"
proof -
  assume "listeners s \<le> 1"
  then consider "listeners s = 0" | "listeners s = 1" by linarith
  then show ?thesis
    by cases (simp_all add: emitted_def notify_zero notify_one sent_changed)
qed

lemma dispatch_listeners:
  "listeners s \<le> 1 \<Longrightarrow> \<exists>s'. dispatch r s = Inr s' \<and> listeners s' \<le> 1"
  by (cases r) (auto simp: start_beat_listener_eq stop_beat_listener_eq)

lemma dispatch_all_listeners:
  "listeners s \<le> 1 \<Longrightarrow> \<exists>s'. dispatch_all rs s = Inr s' \<and> listeners s' \<le> 1"
proof (induction rs arbitrary: s)
  case Nil
  then show ?case by simp
next
  case (Cons r rs)
  from dispatch_listeners [OF Cons.prems, of r]
  obtain s1 where s1: "dispatch r s = Inr s1" "listeners s1 \<le> 1" by blast
  from Cons.IH [OF s1(2)] s1(1) show ?case by simp
qed

lemma split_dot_nonempty: "split_dot s \<noteq> []"
  by (induction s) auto

lemma split_dot_no_dot: "CHR ''.'' \<notin> set s \<Longrightarrow> split_dot s = [s]"
  by (induction s) auto

lemma split_dot_append:
  "CHR ''.'' \<notin> set obj \<Longrightarrow> split_dot (obj @ CHR ''.'' # rest) = obj # split_dot rest"
  by (induction obj) auto

lemma split_dot_token:
  "CHR ''.'' \<notin> set obj \<Longrightarrow> CHR ''.'' \<notin> set p \<Longrightarrow> split_dot (obj @ ''.'' @ p) = [obj, p]"
  by (simp add: split_dot_append split_dot_no_dot)

lemma append_each_acc:
  "append_each f xs rv =
     (case append_each f xs [] of Inl e \<Rightarrow> Inl e | Inr vs \<Rightarrow> Inr (rv @ vs))"
proof (induction xs arbitrary: rv)
  case Nil
  then show ?case by simp
next
  case (Cons x xs)
  show ?case
  proof (cases "f x")
    case (Inl e)
    then show ?thesis by simp
  next
    case (Inr v)
    then show ?thesis
      using Cons.IH [of "rv @ [v]"] Cons.IH [of "[v]"] by (simp split: sum.splits)
  qed
qed

lemma append_each_map:
  "(\<And>x. x \<in> set xs \<Longrightarrow> f x = Inr (g x)) \<Longrightarrow> append_each f xs rv = Inr (rv @ map g xs)"
  by (induction xs arbitrary: rv) auto

lemma unpack2_malformed: "malformed s \<Longrightarrow> unpack2 (split_dot s) = Inl ValueError"
proof -
  assume m: "malformed s"
  show ?thesis
  proof (cases "split_dot s")
    case Nil
    then show ?thesis by (simp add: unpack2_def)
  next
    case (Cons a ys)
    note c1 = this
    show ?thesis
    proof (cases ys)
      case Nil
      with c1 show ?thesis by (simp add: unpack2_def)
    next
      case (Cons b zs)
      with c1 m show ?thesis by (cases zs) (simp_all add: unpack2_def malformed_def)
    qed
  qed
qed

lemma unpack2_pair: "xs = [a, b] \<Longrightarrow> unpack2 xs = Inr (a, b)"
  by (simp add: unpack2_def)

lemma track_data_prop_malformed:
  "malformed s \<Longrightarrow> track_data_prop sg tr (OStr s) lg rv = (lg, Inl ValueError)"
  by (simp add: track_data_prop_def unpack2_malformed)

lemma track_data_prop_split:
  "split_dot s = [obj, property_name] \<Longrightarrow>
   track_data_prop sg tr (OStr s) lg rv =
     (if obj = ''track'' then
        (lg, case track_value sg tr property_name of
               Inl e \<Rightarrow> Inl e | Inr v \<Rightarrow> Inr (rv @ [v]))
      else if obj = ''clip'' then
        (lg, append_each (clip_value property_name) (clip_slots tr) rv)
      else if obj = ''clip_slot'' then
        (lg, append_each (\<lambda>cs. getattr (clip_slot_attrs cs) property_name) (clip_slots tr) rv)
      else if obj = ''device'' then
        (lg, append_each (\<lambda>d. getattr d property_name) (devices tr) rv)
      else (lg @ [Error_unknown_object obj], Inr rv))"
  by (simp add: track_data_prop_def unpack2_pair)

lemma malformed_or_split: "malformed s \<or> (\<exists>obj p. split_dot s = [obj, p])"
proof (cases "malformed s")
  case False
  then have "length (split_dot s) = 2" by (simp add: malformed_def)
  then obtain a b where "split_dot s = [a, b]"
    by (metis (no_types) length_0_conv length_Suc_conv numeral_2_eq_2)
  then show ?thesis by blast
qed simp

lemma snd_track_data_prop:
  "snd (track_data_prop sg tr p lg rv) =
     (case token_values sg tr p of Inl e \<Rightarrow> Inl e | Inr vs \<Rightarrow> Inr (rv @ vs))"
proof (cases p)
  case (OStr s)
  from malformed_or_split [of s] show ?thesis
  proof
    assume "malformed s"
    then show ?thesis by (simp add: OStr token_values_def track_data_prop_malformed)
  next
    assume "\<exists>obj q. split_dot s = [obj, q]"
    then obtain obj q where sp: "split_dot s = [obj, q]" by blast
    note split = track_data_prop_split [OF sp]
    consider "obj = ''track''" | "obj = ''clip''" | "obj = ''clip_slot''" | "obj = ''device''"
      | "obj \<noteq> ''track''" "obj \<noteq> ''clip''" "obj \<noteq> ''clip_slot''" "obj \<noteq> ''device''"
      by blast
    then show ?thesis
    proof cases
      case 1
      then show ?thesis
        by (simp add: OStr token_values_def split split: sum.splits)
    next
      case 2
      then show ?thesis
        using append_each_acc [of "clip_value q" "clip_slots tr" rv]
        by (simp add: OStr token_values_def split)
    next
      case 3
      then show ?thesis
        using append_each_acc [of "\<lambda>cs. getattr (clip_slot_attrs cs) q" "clip_slots tr" rv]
        by (simp add: OStr token_values_def split)
    next
      case 4
      then show ?thesis
        using append_each_acc [of "\<lambda>d. getattr d q" "devices tr" rv]
        by (simp add: OStr token_values_def split)
    next
      case 5
      then show ?thesis
        by (simp add: OStr token_values_def split)
    qed
  qed
qed (simp_all add: token_values_def track_data_prop_def)


lemma snd_props_loop:
  "snd (props_loop sg tr props lg rv) =
     (case concat_results (map (token_values sg tr) props) of
        Inl e \<Rightarrow> Inl e | Inr vs \<Rightarrow> Inr (rv @ vs))"
proof (induction props arbitrary: lg rv)
  case Nil
  then show ?case by simp
next
  case (Cons p props)
  obtain lg' r where step: "track_data_prop sg tr p lg rv = (lg', r)"
    by (cases "track_data_prop sg tr p lg rv")
  with snd_track_data_prop [of sg tr p lg rv]
  have r: "r = (case token_values sg tr p of Inl e \<Rightarrow> Inl e | Inr vs \<Rightarrow> Inr (rv @ vs))"
    by simp
  show ?case
  proof (cases "token_values sg tr p")
    case (Inl e)
    with r step show ?thesis by simp
  next
    case (Inr vs)
    with r step Cons.IH [of lg' "rv @ vs"] show ?thesis
      by (simp split: sum.splits)
  qed
qed

lemma snd_tracks_loop:
  "snd (tracks_loop sg props is lg rv) =
     (case concat_results (map (track_values sg props) is) of
        Inl e \<Rightarrow> Inl e | Inr vs \<Rightarrow> Inr (rv @ vs))"
proof (induction "is" arbitrary: lg rv)
  case Nil
  then show ?case by simp
next
  case (Cons i "is")
  show ?case
  proof (cases "py_nth (tracks sg) i")
    case (Inl e)
    then show ?thesis by (simp add: track_values_def)
  next
    case (Inr tr)
    obtain lg' r where step: "props_loop sg tr props lg rv = (lg', r)"
      by (cases "props_loop sg tr props lg rv")
    with snd_props_loop [of sg tr props lg rv]
    have r: "r = (case concat_results (map (token_values sg tr) props) of
        Inl e \<Rightarrow> Inl e | Inr vs \<Rightarrow> Inr (rv @ vs))"
      by simp
    show ?thesis
    proof (cases "concat_results (map (token_values sg tr) props)")
      case (Inl e)
      with r step Inr show ?thesis by (simp add: track_values_def)
    next
      case vs: (Inr vs)
      with r step Inr Cons.IH [of lg' "rv @ vs"] show ?thesis
        by (simp add: track_values_def split: sum.splits)
    qed
  qed
qed

lemma concat_results_Inr:
  "(\<And>x. x \<in> set xs \<Longrightarrow> f x = Inr (g x)) \<Longrightarrow> concat_results (map f xs) = Inr (concat (map g xs))"
  by (induction xs) auto

lemma snd_song_get_track_data:
  "py_int parse a = Inr lo \<Longrightarrow> py_int parse b = Inr hi \<Longrightarrow>
   snd (song_get_track_data parse sg (a # b # props)) = track_major sg lo hi props"
  by (simp add: song_get_track_data_def track_major_def range_def snd_tracks_loop split: sum.splits)

lemma list_index_Inr:
  "list_index r ts = Inr i \<Longrightarrow>
     i < length ts \<and> ident (ts ! i) = r \<and> (\<forall>j<i. ident (ts ! j) \<noteq> r)"
proof (induction ts arbitrary: i)
  case Nil
  then show ?case by simp
next
  case (Cons t ts)
  show ?case
  proof (cases "ident t = r")
    case True
    with Cons.prems show ?thesis by simp
  next
    case False
    with Cons.prems obtain k where k: "list_index r ts = Inr k" "i = Suc k"
      by (auto split: sum.splits)
    from Cons.IH [OF k(1)] False k(2) show ?thesis
      by (auto simp: nth_Cons split: nat.splits)
  qed
qed

lemma list_index_total: "r \<in> ident ` set ts \<Longrightarrow> \<exists>i. list_index r ts = Inr i"
  by (induction ts) auto

lemma track_value_no_track: "track_value sg tr p = Inr v \<Longrightarrow> v \<noteq> VTrack r"
  by (auto simp: track_value_def split: if_splits sum.splits pyval.splits)

lemma jump_by_name_acc:
  "jump_by_name s (enumerate n cps) acc =
     acc @ [i \<leftarrow> [n..<n + length cps]. name (cps ! (i - n)) = s]"
proof (induction cps arbitrary: n acc)
  case Nil
  then show ?case by simp
next
  case (Cons c cps)
  have "[i \<leftarrow> [n..<n + length (c # cps)]. name ((c # cps) ! (i - n)) = s] =
      (if name c = s then [n] else []) @
      [i \<leftarrow> [Suc n..<Suc n + length cps]. name (cps ! (i - Suc n)) = s]"
  proof -
    have "[n..<n + length (c # cps)] = n # [Suc n..<Suc n + length cps]"
      by (simp add: upt_rec)
    moreover have "filter (\<lambda>i. name ((c # cps) ! (i - n)) = s) [Suc n..<Suc n + length cps]
        = filter (\<lambda>i. name (cps ! (i - Suc n)) = s) [Suc n..<Suc n + length cps]"
    proof (rule filter_cong)
      fix i assume "i \<in> set [Suc n..<Suc n + length cps]"
      then have "i - n = Suc (i - Suc n)" by auto
      then show "(name ((c # cps) ! (i - n)) = s) = (name (cps ! (i - Suc n)) = s)" by simp
    qed simp
    ultimately show ?thesis by simp
  qed
  then show ?case using Cons.IH [of "Suc n"] by simp
qed


lemma concat_results_Inl:
  "(\<And>x. x \<in> set pre \<Longrightarrow> \<exists>vs. f x = Inr vs) \<Longrightarrow> f y = Inl e \<Longrightarrow>
   concat_results (map f (pre @ y # post)) = Inl e"
proof (induction pre)
  case Nil
  then show ?case by simp
next
  case (Cons x pre)
  from Cons.prems(1) [of x] obtain vs where "f x = Inr vs" by auto
  moreover have "concat_results (map f (pre @ y # post)) = Inl e"
    using Cons.IH Cons.prems by simp
  ultimately show ?case by simp
qed

lemma concat_results_some_Inl:
  "Inl e \<in> set rs \<Longrightarrow> \<exists>e'. concat_results rs = Inl e'"
  by (induction rs) (auto split: sum.splits)

lemma token_values_malformed: "malformed s \<Longrightarrow> token_values sg tr (OStr s) = Inl ValueError"
  by (simp add: token_values_def track_data_prop_malformed)


lemma upto_range_first: "lo < hi \<Longrightarrow> [lo..hi - 1] = lo # [lo + 1..hi - 1]"
  by (simp add: upto_rec1)

lemma py_nth_in_range:
  "0 \<le> i \<Longrightarrow> i < int (length xs) \<Longrightarrow> py_nth xs i = Inr (xs ! nat i)"
  by (simp add: py_nth_def py_index_def)

lemma token_values_clip:
  assumes "CHR ''.'' \<notin> set p"
    and "\<And>cs c. cs \<in> set (clip_slots tr) \<Longrightarrow> clip cs = Some c \<Longrightarrow> getattr c p = Inr (val c)"
  shows "track_data_prop sg tr (OStr (''clip.'' @ p)) lg rv =
    (lg, Inr (rv @ map (\<lambda>cs. case clip cs of None \<Rightarrow> VNone | Some c \<Rightarrow> val c) (clip_slots tr)))"
proof -
  have sp: "split_dot (''clip.'' @ p) = [''clip'', p]"
    using split_dot_token [of "''clip''" p] assms(1) by simp
  have "append_each (clip_value p) (clip_slots tr) rv =
      Inr (rv @ map (\<lambda>cs. case clip cs of None \<Rightarrow> VNone | Some c \<Rightarrow> val c) (clip_slots tr))"
    by (rule append_each_map) (auto simp: clip_value_def assms(2) split: option.splits)
  with track_data_prop_split [OF sp, of sg tr lg rv] show ?thesis by simp
qed

lemma example_tracks: "length (tracks example_song) = 2"
  by (simp add: example_song_def)


section \<open>The beat listener: claims C1 to C4\<close>

text \<open>
  Claim C1, as the code has it. On a handler that was just initialised (stored last time
  \<open>-1.0\<close>) and whose beat listener is started, the notifications 0.4, 0.9, 1.1, 1.1, 0.2 send
  three beat events: one at 0.4 (the integer part 0 is above that of \<open>-1.0\<close>), one at the step
  from 0.9 to 1.1 and one at the step from 1.1 to 0.2; none at 0.9 and none at the repeated 1.1.
  The claim's count of two, with no event at 0.4, fails there.
\<close>

theorem beat_sequence_events:
  assumes "start_beat_listener (new_handler t0) = Inr s"
  shows "emitted (2/5) s = 1
    \<and> emitted (9/10) (notify_all [2/5] s) = 0
    \<and> emitted (11/10) (notify_all [2/5, 9/10] s) = 1
    \<and> emitted (11/10) (notify_all [2/5, 9/10, 11/10] s) = 0
    \<and> emitted (1/5) (notify_all [2/5, 9/10, 11/10, 11/10] s) = 1
    \<and> sent (notify_all [2/5, 9/10, 11/10, 11/10, 1/5] s) = [0, 1, 0]"
proof -
  from assms have s: "s = \<lparr>last_song_time = - 1, current_song_time = t0, listeners = 1, sent = [],
      logged = [Info_adding_beat_listener]\<rparr>"
    by (simp add: start_beat_listener_eq new_handler_def init_api_def)
  show ?thesis unfolding s
    by (simp add: emitted_def notify_def current_song_time_changed_def int_of_float_def)
qed

theorem beat_sequence_events_witness:
  "emitted (2/5) started_handler = 1
    \<and> emitted (9/10) (notify_all [2/5] started_handler) = 0
    \<and> emitted (11/10) (notify_all [2/5, 9/10] started_handler) = 1
    \<and> emitted (11/10) (notify_all [2/5, 9/10, 11/10] started_handler) = 0
    \<and> emitted (1/5) (notify_all [2/5, 9/10, 11/10, 11/10] started_handler) = 1
    \<and> sent (notify_all [2/5, 9/10, 11/10, 11/10, 1/5] started_handler) = [0, 1, 0]"
proof -
  have "start_beat_listener (new_handler 0) = Inr started_handler"
    by (simp add: start_beat_listener_eq new_handler_def init_api_def started_handler_def)
  then show ?thesis by (rule beat_sequence_events)
qed

text \<open>
  The count of claim C1 fails: after the start on a new handler, the notification 0.4 sends
  an event, and the five notifications send three.
\<close>

theorem beat_sequence_counterexample:
  "start_beat_listener (new_handler 0) = Inr started_handler
   \<and> emitted (2/5) started_handler = 1
   \<and> length (sent (notify_all [2/5, 9/10, 11/10, 11/10, 1/5] started_handler)) = 3"
  by (simp add: start_beat_listener_eq new_handler_def init_api_def started_handler_def
      emitted_def notify_def current_song_time_changed_def int_of_float_def)

text \<open>
  Claim C2. For one notification with stored time \<open>last_song_time s\<close> and new time \<open>t_new\<close>,
  delivered to the one registered listener: a beat event is sent exactly when the integer
  parts differ or \<open>t_new\<close> is strictly below the stored time; in either case the stored time
  is \<open>t_new\<close> afterwards. (The code tests "integer part greater"; an integer part that is
  smaller makes the time itself smaller.)
\<close>

theorem beat_event_iff:
  assumes "listeners s = 1"
  shows "sent (notify t_new s) =
           sent s @ (if int_of_float t_new \<noteq> int_of_float (last_song_time s)
                        \<or> t_new < last_song_time s
                     then [int_of_float t_new] else [])
    \<and> emitted t_new s =
           (if int_of_float t_new \<noteq> int_of_float (last_song_time s) \<or> t_new < last_song_time s
            then 1 else 0)
    \<and> last_song_time (notify t_new s) = t_new"
  using assms
  by (simp add: emitted_def notify_one sent_changed) (simp add: current_song_time_changed_def Let_def)

theorem beat_event_iff_witness:
  "sent (notify (11/10)
      \<lparr>last_song_time = 19/10, current_song_time = 19/10, listeners = 1, sent = [1],
       logged = []\<rparr>) = [1, 1]
   \<and> sent (notify (19/10)
      \<lparr>last_song_time = 11/10, current_song_time = 11/10, listeners = 1, sent = [1],
       logged = []\<rparr>) = [1]
   \<and> last_song_time (notify (19/10)
      \<lparr>last_song_time = 11/10, current_song_time = 11/10, listeners = 1, sent = [1],
       logged = []\<rparr>) = 19/10"
  using beat_event_iff [of "\<lparr>last_song_time = 19/10, current_song_time = 19/10, listeners = 1,
      sent = [1], logged = []\<rparr>" "11/10"]
    beat_event_iff [of "\<lparr>last_song_time = 11/10, current_song_time = 11/10, listeners = 1,
      sent = [1], logged = []\<rparr>" "19/10"]
  by (simp add: int_of_float_def)

text \<open>
  Claim C3, as the code has it. Starting or restarting the beat listener leaves the stored
  last time as it was, and so does stopping it; only \<^verbatim>\<open>init_api\<close> sets it to \<open>-1.0\<close>,
  whatever it held before. The claimed reset on every start fails on a handler whose stored
  time is 1.1.
\<close>

theorem start_keeps_last_song_time:
  "(\<exists>s'. start_beat_listener s = Inr s' \<and> last_song_time s' = last_song_time s)
   \<and> (\<exists>s'. stop_beat_listener s = Inr s' \<and> last_song_time s' = last_song_time s)
   \<and> last_song_time (init_api s) = - 1"
  by (simp add: start_beat_listener_eq stop_beat_listener_eq init_api_def)

text \<open>
  The reset of claim C3 fails: a restart on a handler whose stored time is 1.1 leaves 1.1
  there, while a new handler holds \<open>-1.0\<close>.
\<close>

theorem start_resets_counterexample:
  "start_beat_listener
     \<lparr>last_song_time = 11/10, current_song_time = 11/10, listeners = 1, sent = [0, 1],
      logged = [Info_adding_beat_listener]\<rparr>
   = Inr \<lparr>last_song_time = 11/10, current_song_time = 11/10, listeners = 1, sent = [0, 1],
      logged = [Info_adding_beat_listener, Info_removing_beat_listener,
        Info_adding_beat_listener]\<rparr>
   \<and> last_song_time (new_handler 0) = - 1"
  by (simp add: start_beat_listener_eq new_handler_def init_api_def)

text \<open>
  Claim C4. From a state with at most one registration (a new handler has none), every
  sequence of start and stop requests is handled without an exception and leaves at most one
  registration, so one notification sends at most one beat event; a start leaves exactly one
  registration (it removes the old one first); a stop with nothing registered returns the
  state unchanged, and a stop always leaves nothing registered.
\<close>

theorem at_most_one_listener:
  assumes "listeners s \<le> 1"
  shows "(\<exists>s'. dispatch_all rs s = Inr s' \<and> listeners s' \<le> 1 \<and> (\<forall>t. emitted t s' \<le> 1))
    \<and> (\<exists>s'. start_beat_listener s = Inr s' \<and> listeners s' = 1)
    \<and> (listeners s = 0 \<longrightarrow> stop_beat_listener s = Inr s)
    \<and> (\<exists>s'. stop_beat_listener s = Inr s' \<and> listeners s' = 0)"
proof -
  from dispatch_all_listeners [OF assms, of rs]
  obtain s' where "dispatch_all rs s = Inr s'" "listeners s' \<le> 1" by blast
  then have "\<exists>s'. dispatch_all rs s = Inr s' \<and> listeners s' \<le> 1 \<and> (\<forall>t. emitted t s' \<le> 1)"
    using emitted_le_1 by blast
  moreover have "\<exists>s'. start_beat_listener s = Inr s' \<and> listeners s' = 1"
    using assms by (simp add: start_beat_listener_eq)
  moreover have "listeners s = 0 \<longrightarrow> stop_beat_listener s = Inr s"
    by (simp add: stop_beat_listener_eq)
  moreover have "\<exists>s'. stop_beat_listener s = Inr s' \<and> listeners s' = 0"
    using assms by (simp add: stop_beat_listener_eq)
  ultimately show ?thesis by blast
qed

theorem at_most_one_listener_witness:
  "listeners (new_handler 0) \<le> 1
   \<and> (\<exists>s'. dispatch_all [Stop_listen_beat, Start_listen_beat, Start_listen_beat,
              Stop_listen_beat, Stop_listen_beat, Start_listen_beat] (new_handler 0) = Inr s'
          \<and> listeners s' \<le> 1 \<and> (\<forall>t. emitted t s' \<le> 1))
   \<and> stop_beat_listener (new_handler 0) = Inr (new_handler 0)"
proof -
  have h: "listeners (new_handler 0) \<le> 1" by (simp add: new_handler_def init_api_def)
  have z: "listeners (new_handler 0) = 0" by (simp add: new_handler_def init_api_def)
  show ?thesis using h z at_most_one_listener [OF h] by blast
qed


section \<open>The bulk query: claims C5 to C9\<close>

text \<open>
  Claim C5. A token \<^verbatim>\<open>clip.<prop>\<close> appends one value for every clip slot of the track,
  in slot order: the clip's \<open>prop\<close> where the slot holds a clip (the clips of the session
  have the property), \<open>None\<close> where it is empty. A query with this single token over tracks
  inside the track list returns these sequences track after track. The witness is the
  session of two tracks with the slots \<open>A, None\<close> and \<open>None, B\<close> and the query
  \<^verbatim>\<open>0 2 clip.name\<close>.
\<close>

theorem clip_token_one_value_per_slot:
  assumes "CHR ''.'' \<notin> set p"
    and "py_int int_of_str a = Inr lo" and "py_int int_of_str b = Inr hi"
    and "hi' = (if hi = - 1 then int (length (tracks sg)) else hi)"
    and "0 \<le> lo" and "hi' \<le> int (length (tracks sg))"
    and "\<forall>tr \<in> set (tracks sg). \<forall>cs \<in> set (clip_slots tr). \<forall>c.
           clip cs = Some c \<longrightarrow> getattr c p = Inr (val c)"
  shows "(\<forall>tr \<in> set (tracks sg). \<forall>lg rv.
            track_data_prop sg tr (OStr (''clip.'' @ p)) lg rv =
              (lg, Inr (rv @ map (\<lambda>cs. case clip cs of None \<Rightarrow> VNone | Some c \<Rightarrow> val c)
                               (clip_slots tr))))
    \<and> snd (song_get_track_data int_of_str sg [a, b, OStr (''clip.'' @ p)]) =
        Inr (concat (map (\<lambda>i. map (\<lambda>cs. case clip cs of None \<Rightarrow> VNone | Some c \<Rightarrow> val c)
                                (clip_slots (tracks sg ! nat i)))
                      [lo..hi' - 1]))"
proof -
  let ?slot = "\<lambda>cs. case clip cs of None \<Rightarrow> VNone | Some c \<Rightarrow> val c"
  have tok: "track_data_prop sg tr (OStr (''clip.'' @ p)) lg rv =
      (lg, Inr (rv @ map ?slot (clip_slots tr)))" if "tr \<in> set (tracks sg)" for tr lg rv
    using assms(1) by (rule token_values_clip) (use assms(7) that in blast)
  have tv: "track_values sg [OStr (''clip.'' @ p)] i = Inr (map ?slot (clip_slots (tracks sg ! nat i)))"
    if "i \<in> set [lo..hi' - 1]" for i
  proof -
    from that assms(5,6) have i: "0 \<le> i" "i < int (length (tracks sg))" by auto
    then have "tracks sg ! nat i \<in> set (tracks sg)" by simp
    from tok [OF this, of "[]" "[]"] show ?thesis
      by (simp add: track_values_def py_nth_in_range [OF i] token_values_def)
  qed
  have "snd (song_get_track_data int_of_str sg [a, b, OStr (''clip.'' @ p)]) =
      track_major sg lo hi [OStr (''clip.'' @ p)]"
    using assms(2,3) by (rule snd_song_get_track_data)
  also have "\<dots> = concat_results (map (track_values sg [OStr (''clip.'' @ p)]) [lo..hi' - 1])"
    by (simp add: track_major_def assms(4))
  also have "\<dots> = Inr (concat (map (\<lambda>i. map ?slot (clip_slots (tracks sg ! nat i))) [lo..hi' - 1]))"
    by (rule concat_results_Inr) (rule tv)
  finally show ?thesis using tok by blast
qed

theorem clip_token_one_value_per_slot_witness:
  "snd (song_get_track_data no_str_int example_song [OInt 0, OInt 2, OStr ''clip.name''])
     = Inr [VStr ''A'', VNone, VNone, VStr ''B'']"
proof -
  let ?val = "\<lambda>c. case map_of c ''name'' of None \<Rightarrow> VNone | Some v \<Rightarrow> v"
  have h1: "CHR ''.'' \<notin> set ''name''" by simp
  have h2: "py_int no_str_int (OInt 0) = Inr 0" by (simp add: py_int_def)
  have h3: "py_int no_str_int (OInt 2) = Inr 2" by (simp add: py_int_def)
  have h4: "(2::int) = (if (2::int) = - 1 then int (length (tracks example_song)) else 2)"
    by simp
  have h5: "(0::int) \<le> 0" by simp
  have h6: "2 \<le> int (length (tracks example_song))" by (simp add: example_tracks)
  have h7: "\<forall>tr \<in> set (tracks example_song). \<forall>cs \<in> set (clip_slots tr). \<forall>c.
           clip cs = Some c \<longrightarrow> getattr c ''name'' = Inr (?val c)"
    by (simp add: example_song_def getattr_def)
  have r: "[0..2 - 1] = [0, 1::int]" by (simp add: upto_rec1)
  have "snd (song_get_track_data no_str_int example_song
          [OInt 0, OInt 2, OStr (''clip.'' @ ''name'')]) =
        Inr (concat (map (\<lambda>i. map (\<lambda>cs. case clip cs of None \<Rightarrow> VNone | Some c \<Rightarrow> ?val c)
                                (clip_slots (tracks example_song ! nat i)))
                      [0..2 - 1]))"
    using clip_token_one_value_per_slot [OF h1 h2 h3 h4 h5 h6 h7] by blast
  then show ?thesis unfolding r by (simp add: example_song_def)
qed

text \<open>
  Claim C6. With bounds that convert to \<open>lo\<close> and \<open>hi\<close>, the handler returns what the
  specification's \<open>track_major\<close> describes: \<open>-1\<close> as upper bound is replaced by the number
  of tracks, the track indices \<open>lo, ..., hi' - 1\<close> are visited in ascending order, each once,
  and within a track the tokens are evaluated in request order. Where every track lookup and
  every token succeeds, the response is the concatenation, track by track and token by token,
  of the tokens' values; otherwise it is the first exception in that order.
\<close>

theorem track_major_token_minor:
  assumes "py_int int_of_str a = Inr lo" and "py_int int_of_str b = Inr hi"
    and "hi' = (if hi = - 1 then int (length (tracks sg)) else hi)"
  shows "snd (song_get_track_data int_of_str sg (a # b # props)) = track_major sg lo hi props
    \<and> ((\<forall>i \<in> set [lo..hi' - 1]. py_nth (tracks sg) i = Inr (trk i)
           \<and> (\<forall>q \<in> set props. token_values sg (trk i) q = Inr (vals i q)))
        \<longrightarrow> snd (song_get_track_data int_of_str sg (a # b # props)) =
              Inr (concat (map (\<lambda>i. concat (map (vals i) props)) [lo..hi' - 1])))
    \<and> set [lo..hi' - 1] = {i. lo \<le> i \<and> i < hi'} \<and> sorted [lo..hi' - 1] \<and> distinct [lo..hi' - 1]"
proof -
  have eq: "snd (song_get_track_data int_of_str sg (a # b # props)) = track_major sg lo hi props"
    using assms(1,2) by (rule snd_song_get_track_data)
  have ok: "track_major sg lo hi props =
      Inr (concat (map (\<lambda>i. concat (map (vals i) props)) [lo..hi' - 1]))"
    if h: "\<forall>i \<in> set [lo..hi' - 1]. py_nth (tracks sg) i = Inr (trk i)
           \<and> (\<forall>q \<in> set props. token_values sg (trk i) q = Inr (vals i q))"
  proof -
    have "track_values sg props i = Inr (concat (map (vals i) props))"
      if i: "i \<in> set [lo..hi' - 1]" for i
    proof -
      from h i have n: "py_nth (tracks sg) i = Inr (trk i)"
        and t: "\<And>q. q \<in> set props \<Longrightarrow> token_values sg (trk i) q = Inr (vals i q)"
        by blast+
      have "concat_results (map (token_values sg (trk i)) props) = Inr (concat (map (vals i) props))"
        by (rule concat_results_Inr) (rule t)
      with n show ?thesis by (simp add: track_values_def)
    qed
    then have "concat_results (map (track_values sg props) [lo..hi' - 1]) =
        Inr (concat (map (\<lambda>i. concat (map (vals i) props)) [lo..hi' - 1]))"
      by (rule concat_results_Inr)
    then show ?thesis by (simp add: track_major_def assms(3))
  qed
  have "set [lo..hi' - 1] = {i. lo \<le> i \<and> i < hi'}" by auto
  with eq ok show ?thesis by simp
qed

theorem track_major_token_minor_witness:
  "snd (song_get_track_data no_str_int example_song
          [OInt 0, OInt (- 1), OStr ''track.name'', OStr ''clip.name'', OStr ''device.name''])
     = Inr [VStr ''T0'', VStr ''A'', VNone, VStr ''T1'', VNone, VStr ''B'', VStr ''Reverb'']"
proof -
  have h1: "py_int no_str_int (OInt 0) = Inr 0" by (simp add: py_int_def)
  have h2: "py_int no_str_int (OInt (- 1)) = Inr (- 1)" by (simp add: py_int_def)
  have h3: "(2::int) = (if (- 1::int) = - 1 then int (length (tracks example_song)) else - 1)"
    by (simp add: example_tracks)
  have "snd (song_get_track_data no_str_int example_song
          (OInt 0 # OInt (- 1) # [OStr ''track.name'', OStr ''clip.name'', OStr ''device.name'']))
     = track_major example_song 0 (- 1)
         [OStr ''track.name'', OStr ''clip.name'', OStr ''device.name'']"
    using track_major_token_minor [OF h1 h2 h3] by blast
  moreover have "[0..2 - 1] = [0, 1::int]" by (simp add: upto_rec1)
  ultimately show ?thesis
    by (simp add: track_major_def example_tracks track_values_def py_nth_def py_index_def
        token_values_def track_data_prop_def unpack2_def track_value_def clip_value_def
        getattr_def example_song_def)
qed

text \<open>
  Claim C7. For a token \<^verbatim>\<open>track.<prop>\<close>: \<^verbatim>\<open>num_devices\<close> yields the number of the
  track's devices without any attribute being read; a fetched value that refers to a track of
  the current track list is replaced by the index of that track in the list (the first
  position holding the referenced object); any other fetched value is appended as it is. So
  whatever such a token contributes is one value, and never a reference to a track.
\<close>

theorem track_token_resolves_track_reference:
  assumes "CHR ''.'' \<notin> set p"
  shows "(p = ''num_devices'' \<longrightarrow>
           track_data_prop sg tr (OStr (''track.'' @ p)) lg rv =
             (lg, Inr (rv @ [VInt (int (length (devices tr)))])))
    \<and> (p \<noteq> ''num_devices'' \<and> getattr (track_attrs tr) p = Inr (VTrack r)
          \<and> r \<in> ident ` set (tracks sg) \<longrightarrow>
          (\<exists>i. track_data_prop sg tr (OStr (''track.'' @ p)) lg rv = (lg, Inr (rv @ [VInt (int i)]))
             \<and> i < length (tracks sg) \<and> ident (tracks sg ! i) = r
             \<and> (\<forall>j<i. ident (tracks sg ! j) \<noteq> r)))
    \<and> (p \<noteq> ''num_devices'' \<and> getattr (track_attrs tr) p = Inr v \<and> (\<forall>r'. v \<noteq> VTrack r') \<longrightarrow>
          track_data_prop sg tr (OStr (''track.'' @ p)) lg rv = (lg, Inr (rv @ [v])))
    \<and> (\<forall>vs. snd (track_data_prop sg tr (OStr (''track.'' @ p)) lg rv) = Inr vs \<longrightarrow>
          (\<exists>w. vs = rv @ [w] \<and> (\<forall>r'. w \<noteq> VTrack r')))"
proof -
  have sp: "split_dot (''track.'' @ p) = [''track'', p]"
    using split_dot_token [of "''track''" p] assms by simp
  have tok: "track_data_prop sg tr (OStr (''track.'' @ p)) lg rv =
      (lg, case track_value sg tr p of Inl e \<Rightarrow> Inl e | Inr w \<Rightarrow> Inr (rv @ [w]))"
    using track_data_prop_split [OF sp, of sg tr lg rv] by simp
  have A: "track_data_prop sg tr (OStr (''track.'' @ p)) lg rv =
             (lg, Inr (rv @ [VInt (int (length (devices tr)))]))" if "p = ''num_devices''"
    using that tok by (simp add: track_value_def)
  have B: "\<exists>i. track_data_prop sg tr (OStr (''track.'' @ p)) lg rv = (lg, Inr (rv @ [VInt (int i)]))
             \<and> i < length (tracks sg) \<and> ident (tracks sg ! i) = r
             \<and> (\<forall>j<i. ident (tracks sg ! j) \<noteq> r)"
    if "p \<noteq> ''num_devices''" "getattr (track_attrs tr) p = Inr (VTrack r)"
      "r \<in> ident ` set (tracks sg)"
  proof -
    from list_index_total [OF that(3)] obtain i where i: "list_index r (tracks sg) = Inr i"
      by blast
    from that(1,2) i have "track_value sg tr p = Inr (VInt (int i))"
      by (simp add: track_value_def)
    with list_index_Inr [OF i] tok show ?thesis by simp
  qed
  have C: "track_data_prop sg tr (OStr (''track.'' @ p)) lg rv = (lg, Inr (rv @ [v]))"
    if "p \<noteq> ''num_devices''" "getattr (track_attrs tr) p = Inr v" "\<forall>r'. v \<noteq> VTrack r'"
  proof -
    from that have "track_value sg tr p = Inr v"
      by (cases v) (simp_all add: track_value_def)
    with tok show ?thesis by simp
  qed
  have D: "\<exists>w. vs = rv @ [w] \<and> (\<forall>r'. w \<noteq> VTrack r')"
    if "snd (track_data_prop sg tr (OStr (''track.'' @ p)) lg rv) = Inr vs" for vs
  proof (cases "track_value sg tr p")
    case (Inl e)
    with that tok show ?thesis by simp
  next
    case (Inr w)
    with that tok have "vs = rv @ [w]" by simp
    with track_value_no_track [OF Inr] show ?thesis by blast
  qed
  from A B C D show ?thesis by (intro conjI impI allI) blast+
qed

theorem track_token_resolves_track_reference_witness:
  "track_data_prop example_song (tracks example_song ! 1) (OStr ''track.group_track'') [] []
     = ([], Inr [VInt 0])
   \<and> track_data_prop example_song (tracks example_song ! 1) (OStr ''track.num_devices'') [] []
     = ([], Inr [VInt 1])"
proof -
  let ?t1 = "tracks example_song ! 1"
  have h: "CHR ''.'' \<notin> set ''group_track''" "CHR ''.'' \<notin> set ''num_devices''" by simp_all
  have g: "''group_track'' \<noteq> ''num_devices''
      \<and> getattr (track_attrs ?t1) ''group_track'' = Inr (VTrack 0)
      \<and> 0 \<in> ident ` set (tracks example_song)"
    by (simp add: example_song_def getattr_def)
  note G = track_token_resolves_track_reference [OF h(1), where sg = example_song
      and tr = ?t1 and r = 0 and lg = "[]" and rv = "[]"]
  have "\<exists>i. track_data_prop example_song ?t1 (OStr (''track.'' @ ''group_track'')) [] []
          = ([], Inr ([] @ [VInt (int i)]))
        \<and> i < length (tracks example_song) \<and> ident (tracks example_song ! i) = 0
        \<and> (\<forall>j<i. ident (tracks example_song ! j) \<noteq> 0)"
    using G [THEN conjunct2, THEN conjunct1] g by (rule mp)
  then obtain i where i: "track_data_prop example_song ?t1
        (OStr (''track.'' @ ''group_track'')) [] [] = ([], Inr ([] @ [VInt (int i)]))"
      "\<forall>j<i. ident (tracks example_song ! j) \<noteq> 0"
    by blast
  have "ident (tracks example_song ! 0) = 0" by (simp add: example_song_def)
  with i(2) have "i = 0" by (cases i) auto
  note N = track_token_resolves_track_reference [OF h(2), where sg = example_song
        and tr = ?t1 and lg = "[]" and rv = "[]"]
  have "track_data_prop example_song ?t1 (OStr (''track.'' @ ''num_devices'')) [] []
      = ([], Inr ([] @ [VInt (int (length (devices ?t1)))]))"
    using N [THEN conjunct1] by simp
  moreover have "length (devices ?t1) = 1" by (simp add: example_song_def)
  ultimately show ?thesis using i(1) \<open>i = 0\<close> by simp
qed






text \<open>
  Claim C9, as the code has it. A token is split only when the loop reaches it. With a track
  range that is not empty, a query holding a string token that does not split into exactly
  two pieces always ends in an exception and returns no values; the exception is the
  \<^verbatim>\<open>ValueError\<close> of the unpacking when the first track exists and the tokens before the
  faulty one evaluate on it. With an empty track range nothing is split and the handler
  returns the empty tuple without an exception: for the two tracks of the session, the
  queries \<^verbatim>\<open>2 -1 name\<close> and \<^verbatim>\<open>0 0 name\<close> do so.
\<close>

theorem malformed_token_aborts:
  assumes "malformed s"
    and "py_int int_of_str a = Inr lo" and "py_int int_of_str b = Inr hi"
    and "hi' = (if hi = - 1 then int (length (tracks sg)) else hi)"
  shows "(lo < hi' \<longrightarrow>
            (\<exists>e. snd (song_get_track_data int_of_str sg (a # b # pre @ OStr s # post)) = Inl e))
    \<and> (lo < hi' \<and> py_nth (tracks sg) lo = Inr tr
          \<and> (\<forall>q \<in> set pre. \<exists>vs. token_values sg tr q = Inr vs) \<longrightarrow>
          snd (song_get_track_data int_of_str sg (a # b # pre @ OStr s # post)) = Inl ValueError)
    \<and> (hi' \<le> lo \<longrightarrow>
          snd (song_get_track_data int_of_str sg (a # b # pre @ OStr s # post)) = Inr [])"
proof -
  let ?props = "pre @ OStr s # post"
  have eq: "snd (song_get_track_data int_of_str sg (a # b # ?props)) =
      concat_results (map (track_values sg ?props) [lo..hi' - 1])"
    using snd_song_get_track_data [OF assms(2,3), of sg ?props]
    by (simp add: track_major_def assms(4))
  have bad: "token_values sg t (OStr s) = Inl ValueError" for t
    using assms(1) by (rule token_values_malformed)
  have first: "\<exists>e. track_values sg ?props lo = Inl e"
  proof (cases "py_nth (tracks sg) lo")
    case (Inl e)
    then show ?thesis by (simp add: track_values_def)
  next
    case (Inr t)
    have "Inl ValueError \<in> set (map (token_values sg t) ?props)" by (simp add: bad)
    from concat_results_some_Inl [OF this] Inr show ?thesis by (simp add: track_values_def)
  qed
  have A: "\<exists>e. snd (song_get_track_data int_of_str sg (a # b # ?props)) = Inl e" if "lo < hi'"
  proof -
    from first obtain e where "track_values sg ?props lo = Inl e" by blast
    then show ?thesis by (simp add: eq upto_range_first [OF that])
  qed
  have B: "snd (song_get_track_data int_of_str sg (a # b # ?props)) = Inl ValueError"
    if "lo < hi'" "py_nth (tracks sg) lo = Inr tr"
      "\<forall>q \<in> set pre. \<exists>vs. token_values sg tr q = Inr vs"
  proof -
    have "concat_results (map (token_values sg tr) ?props) = Inl ValueError"
      by (rule concat_results_Inl) (use that(3) bad in auto)
    with that(2) have "track_values sg ?props lo = Inl ValueError"
      by (simp add: track_values_def)
    then show ?thesis by (simp add: eq upto_range_first [OF that(1)])
  qed
  have C: "snd (song_get_track_data int_of_str sg (a # b # ?props)) = Inr []" if "hi' \<le> lo"
    using that by (simp add: eq)
  from A B C show ?thesis by (intro conjI impI) blast+
qed

theorem malformed_token_aborts_witness:
  "snd (song_get_track_data no_str_int example_song
          [OInt 0, OInt (- 1), OStr ''track.name'', OStr ''name'', OStr ''clip.name''])
     = Inl ValueError
   \<and> snd (song_get_track_data no_str_int example_song
          [OInt 0, OInt (- 1), OStr ''track.name'', OStr ''a.b.c'', OStr ''clip.name''])
     = Inl ValueError
   \<and> snd (song_get_track_data no_str_int example_song
          [OInt 2, OInt (- 1), OStr ''track.name'', OStr ''name'', OStr ''clip.name''])
     = Inr []"
proof -
  have m: "malformed ''name''" "malformed ''a.b.c''" by (simp_all add: malformed_def)
  have h1: "py_int no_str_int (OInt 0) = Inr 0" by (simp add: py_int_def)
  have h1': "py_int no_str_int (OInt 2) = Inr 2" by (simp add: py_int_def)
  have h2: "py_int no_str_int (OInt (- 1)) = Inr (- 1)" by (simp add: py_int_def)
  have h3: "(2::int) = (if (- 1::int) = - 1 then int (length (tracks example_song)) else - 1)"
    by (simp add: example_tracks)
  have g: "(0::int) < 2 \<and> py_nth (tracks example_song) 0 = Inr (tracks example_song ! 0)
      \<and> (\<forall>q \<in> set [OStr ''track.name'']. \<exists>vs. token_values example_song (tracks example_song ! 0) q = Inr vs)"
    by (simp add: py_nth_def py_index_def example_tracks token_values_def track_data_prop_def
        unpack2_def track_value_def getattr_def example_song_def)
  have "snd (song_get_track_data no_str_int example_song
          (OInt 0 # OInt (- 1) # [OStr ''track.name''] @ OStr ''name'' # [OStr ''clip.name'']))
     = Inl ValueError"
    using malformed_token_aborts [OF m(1) h1 h2 h3, where tr = "tracks example_song ! 0"
        and pre = "[OStr ''track.name'']" and post = "[OStr ''clip.name'']", THEN conjunct2,
        THEN conjunct1] g
    by (rule mp)
  moreover have "snd (song_get_track_data no_str_int example_song
          (OInt 0 # OInt (- 1) # [OStr ''track.name''] @ OStr ''a.b.c'' # [OStr ''clip.name'']))
     = Inl ValueError"
    using malformed_token_aborts [OF m(2) h1 h2 h3, where tr = "tracks example_song ! 0"
        and pre = "[OStr ''track.name'']" and post = "[OStr ''clip.name'']", THEN conjunct2,
        THEN conjunct1] g
    by (rule mp)
  moreover have "snd (song_get_track_data no_str_int example_song
          (OInt 2 # OInt (- 1) # [OStr ''track.name''] @ OStr ''name'' # [OStr ''clip.name'']))
     = Inr []"
    using malformed_token_aborts [OF m(1) h1' h2 h3, where pre = "[OStr ''track.name'']"
        and post = "[OStr ''clip.name'']", THEN conjunct2, THEN conjunct2]
    by simp
  ultimately show ?thesis by simp
qed

text \<open>
  The exception of claim C9 fails on an empty track range: the token \<^verbatim>\<open>name\<close> has no dot,
  and both queries return the empty tuple.
\<close>

theorem malformed_token_counterexample:
  "malformed ''name''
   \<and> song_get_track_data no_str_int example_song [OInt 2, OInt (- 1), OStr ''name'']
       = ([Info_getting_track_data [OStr ''name''] 2 (- 1)], Inr [])
   \<and> song_get_track_data no_str_int example_song [OInt 0, OInt 0, OStr ''name'']
       = ([Info_getting_track_data [OStr ''name''] 0 0], Inr [])"
  by (simp add: malformed_def song_get_track_data_def py_int_def range_def example_tracks)

section \<open>Jumping to a cue point: claim C10\<close>

text \<open>
  Claim C10. With a string as first argument, \<^verbatim>\<open>jump\<close> is called on exactly the cue
  points of that name, in list order: on none if no name matches, on several if the name
  occurs several times. With an integer, it is called on the cue point at that index, where
  Python's indexing lets \<open>-1\<close> down to \<open>-n\<close> count from the end of a list of \<open>n\<close> cue
  points; an index outside \<open>-n, ..., n - 1\<close> raises \<^verbatim>\<open>IndexError\<close>. With a float there is
  no call. An empty argument list raises \<^verbatim>\<open>IndexError\<close>.
\<close>

theorem jump_to_cue_point_cases:
  "song_jump_to_cue_point sg (OStr s # rest) =
      Inr [i \<leftarrow> [0..<length (cue_points sg)]. name (cue_points sg ! i) = s]
   \<and> (0 \<le> i \<and> i < int (length (cue_points sg)) \<longrightarrow>
        song_jump_to_cue_point sg (OInt i # rest) = Inr [nat i])
   \<and> (- int (length (cue_points sg)) \<le> i \<and> i < 0 \<longrightarrow>
        song_jump_to_cue_point sg (OInt i # rest) = Inr [nat (int (length (cue_points sg)) + i)])
   \<and> (int (length (cue_points sg)) \<le> i \<or> i < - int (length (cue_points sg)) \<longrightarrow>
        song_jump_to_cue_point sg (OInt i # rest) = Inl IndexError)
   \<and> song_jump_to_cue_point sg (OFloat f # rest) = Inr []
   \<and> song_jump_to_cue_point sg [] = Inl IndexError"
proof -
  have "jump_by_name s (enumerate 0 (cue_points sg)) [] =
      [i \<leftarrow> [0..<length (cue_points sg)]. name (cue_points sg ! i) = s]"
    using jump_by_name_acc [of s 0 "cue_points sg" "[]"] by simp
  then have A: "song_jump_to_cue_point sg (OStr s # rest) =
      Inr [i \<leftarrow> [0..<length (cue_points sg)]. name (cue_points sg ! i) = s]"
    by (simp add: song_jump_to_cue_point_def)
  have B: "0 \<le> i \<and> i < int (length (cue_points sg)) \<longrightarrow>
        song_jump_to_cue_point sg (OInt i # rest) = Inr [nat i]"
    by (simp add: song_jump_to_cue_point_def py_index_def)
  have C: "- int (length (cue_points sg)) \<le> i \<and> i < 0 \<longrightarrow>
        song_jump_to_cue_point sg (OInt i # rest) = Inr [nat (int (length (cue_points sg)) + i)]"
    by (simp add: song_jump_to_cue_point_def py_index_def)
  have D: "int (length (cue_points sg)) \<le> i \<or> i < - int (length (cue_points sg)) \<longrightarrow>
        song_jump_to_cue_point sg (OInt i # rest) = Inl IndexError"
    by (auto simp: song_jump_to_cue_point_def py_index_def)
  have E: "song_jump_to_cue_point sg (OFloat f # rest) = Inr []"
    "song_jump_to_cue_point sg [] = Inl IndexError"
    by (simp_all add: song_jump_to_cue_point_def)
  from A B C D E show ?thesis by (intro conjI)
qed

theorem jump_to_cue_point_cases_witness:
  "song_jump_to_cue_point example_song [OStr ''intro''] = Inr [0, 2]
   \<and> song_jump_to_cue_point example_song [OStr ''outro''] = Inr []
   \<and> song_jump_to_cue_point example_song [OInt 1] = Inr [1]
   \<and> song_jump_to_cue_point example_song [OInt (- 1)] = Inr [2]
   \<and> song_jump_to_cue_point example_song [OInt 3] = Inl IndexError
   \<and> song_jump_to_cue_point example_song [OFloat (3 / 2)] = Inr []"
proof -
  have n: "length (cue_points example_song) = 3" by (simp add: example_song_def)
  have u: "[0..<3] = [0, 1, 2::nat]" by (simp add: upt_rec)
  have "song_jump_to_cue_point example_song [OStr ''intro''] = Inr [0, 2]"
    using jump_to_cue_point_cases [of example_song "''intro''" "[]", THEN conjunct1]
    unfolding n u by (simp add: example_song_def)
  moreover have "song_jump_to_cue_point example_song [OStr ''outro''] = Inr []"
    using jump_to_cue_point_cases [of example_song "''outro''" "[]", THEN conjunct1]
    unfolding n u by (simp add: example_song_def)
  moreover have "song_jump_to_cue_point example_song [OInt 1] = Inr [1]"
    using jump_to_cue_point_cases [of example_song _ "[]" 1, THEN conjunct2, THEN conjunct1]
    by (simp add: n)
  moreover have "song_jump_to_cue_point example_song [OInt (- 1)] = Inr [2]"
    using jump_to_cue_point_cases [of example_song _ "[]" "- 1", THEN conjunct2, THEN conjunct2,
        THEN conjunct1]
    by (simp add: n)
  moreover have "song_jump_to_cue_point example_song [OInt 3] = Inl IndexError"
    using jump_to_cue_point_cases [of example_song _ "[]" 3, THEN conjunct2, THEN conjunct2,
        THEN conjunct2, THEN conjunct1]
    by (simp add: n)
  moreover have "song_jump_to_cue_point example_song [OFloat (3 / 2)] = Inr []"
    using jump_to_cue_point_cases [of example_song _ "[]" _ "3 / 2", THEN conjunct2,
        THEN conjunct2, THEN conjunct2, THEN conjunct2, THEN conjunct1] .
  ultimately show ?thesis by simp
qed

end
